theory Spec2Isabelle
  imports Main "HOL-Library.Word"
begin

unbundle bit_operations_syntax

section \<open>Python values as the logger sees them\<close>

text \<open>
  The program is \<^verbatim>\<open>mavlink_proxy_with_json.py\<close>: class \<^verbatim>\<open>MAVProxyWithJSON\<close>.
  A Python \<^verbatim>\<open>str\<close> is a sequence of Unicode code points, a \<^verbatim>\<open>bytes\<close> or
  \<^verbatim>\<open>bytearray\<close> object a sequence of octets. Text that reaches the log file is ASCII
  (\<^verbatim>\<open>json.dumps\<close> runs with its default \<^verbatim>\<open>ensure_ascii=True\<close>) and is kept as an
  Isabelle \<^typ>\<open>string\<close>.
\<close>

type_synonym byte = "8 word"
type_synonym pystr = "nat list"

text \<open>The code points of an ASCII literal.\<close>

definition str :: "string \<Rightarrow> pystr" where
  "str cs = map of_char cs"

text \<open>
  Dictionary keys: field names are \<^verbatim>\<open>str\<close>; \<^verbatim>\<open>int\<close> and \<^verbatim>\<open>bytes\<close> keys are
  the other hashable kinds kept in the model (\<^verbatim>\<open>json.dumps\<close> accepts the first and
  rejects the second).
\<close>

datatype pykey = KStr pystr | KInt int | KBytes "byte list"

text \<open>
  The values \<^verbatim>\<open>make_json_serializable\<close> tells apart with \<^verbatim>\<open>isinstance\<close>, and the
  leaves it passes through. A \<^verbatim>\<open>dict\<close> is the list of its items in iteration order.
  A \<^verbatim>\<open>float\<close> is carried as the text \<^verbatim>\<open>float.__repr__\<close> gives for it, since the
  program only ever prints floats. \<open>PObject c\<close> is an object of any other class \<open>c\<close>
  (a \<^verbatim>\<open>set\<close>, a user class, ...).
\<close>

datatype pyval =
    PNone
  | PBool bool
  | PInt int
  | PFloat string
  | PStr pystr
  | PBytes "byte list"
  | PByteArray "byte list"
  | PDict "(pykey \<times> pyval) list"
  | PList "pyval list"
  | PTuple "pyval list"
  | PObject string

section \<open>\<^verbatim>\<open>bytes.decode('utf-8', errors='replace')\<close>\<close>

text \<open>
  The decoder is Python's own. It reads the longest prefix that can start a well-formed
  UTF-8 sequence; a complete sequence gives its code point, an ill-formed or truncated
  one gives one U+FFFD for the bytes read so far (at least one), and decoding resumes at
  the offending byte.
\<close>

definition replacement_char :: nat where
  "replacement_char = 0xFFFD"

definition is_continuation :: "byte \<Rightarrow> bool" where
  "is_continuation b \<longleftrightarrow> 0x80 \<le> b \<and> b \<le> 0xBF"

definition low6 :: "byte \<Rightarrow> nat" where
  "low6 b = unat (b AND 0x3F)"

text \<open>One decoding step: the code point produced and the number of bytes consumed.\<close>

fun utf8_step :: "byte list \<Rightarrow> nat \<times> nat" where
  "utf8_step [] = (replacement_char, 1)"
| "utf8_step (b0 # rest) =
    (if b0 < 0x80 then (unat b0, 1)
     else if b0 < 0xC2 then (replacement_char, 1)
     else if b0 < 0xE0 then
       (case rest of
          [] \<Rightarrow> (replacement_char, 1)
        | b1 # _ \<Rightarrow>
            if is_continuation b1 then (unat (b0 AND 0x1F) * 64 + low6 b1, 2)
            else (replacement_char, 1))
     else if b0 < 0xF0 then
       (case rest of
          [] \<Rightarrow> (replacement_char, 1)
        | b1 # r1 \<Rightarrow>
            if \<not> is_continuation b1 \<or> (b0 = 0xE0 \<and> b1 < 0xA0) \<or> (b0 = 0xED \<and> 0xA0 \<le> b1)
            then (replacement_char, 1)
            else (case r1 of
                    [] \<Rightarrow> (replacement_char, 2)
                  | b2 # _ \<Rightarrow>
                      if is_continuation b2
                      then (unat (b0 AND 0x0F) * 4096 + low6 b1 * 64 + low6 b2, 3)
                      else (replacement_char, 2)))
     else if b0 < 0xF5 then
       (case rest of
          [] \<Rightarrow> (replacement_char, 1)
        | b1 # r1 \<Rightarrow>
            if \<not> is_continuation b1 \<or> (b0 = 0xF0 \<and> b1 < 0x90) \<or> (b0 = 0xF4 \<and> 0x90 \<le> b1)
            then (replacement_char, 1)
            else (case r1 of
                    [] \<Rightarrow> (replacement_char, 2)
                  | b2 # r2 \<Rightarrow>
                      if \<not> is_continuation b2 then (replacement_char, 2)
                      else (case r2 of
                              [] \<Rightarrow> (replacement_char, 3)
                            | b3 # _ \<Rightarrow>
                                if is_continuation b3
                                then (unat (b0 AND 0x07) * 262144 + low6 b1 * 4096
                                        + low6 b2 * 64 + low6 b3, 4)
                                else (replacement_char, 3))))
     else (replacement_char, 1))"

function utf8_decode_replace :: "byte list \<Rightarrow> pystr" where
  "utf8_decode_replace [] = []"
| "utf8_decode_replace (b # bs) =
    fst (utf8_step (b # bs)) # utf8_decode_replace (drop (snd (utf8_step (b # bs))) (b # bs))"
  by pat_completeness auto

termination
proof (relation "measure length")
  show "wf (measure length)" by simp
next
  fix b :: byte and bs :: "byte list"
  have "0 < snd (utf8_step (b # bs))"
    by (auto split: list.splits)
  then show "(drop (snd (utf8_step (b # bs))) (b # bs), b # bs) \<in> measure length"
    by simp
qed

section \<open>\<^verbatim>\<open>make_json_serializable\<close>\<close>

fun make_json_serializable :: "pyval \<Rightarrow> pyval" where
  "make_json_serializable (PByteArray bs) = PStr (utf8_decode_replace bs)"
| "make_json_serializable (PBytes bs) = PStr (utf8_decode_replace bs)"
| "make_json_serializable (PDict kvs) =
     PDict (map (\<lambda>(key, value). (key, make_json_serializable value)) kvs)"
| "make_json_serializable (PList xs) = PList (map make_json_serializable xs)"
| "make_json_serializable (PTuple xs) = PList (map make_json_serializable xs)"
| "make_json_serializable obj = obj"


section \<open>\<^verbatim>\<open>json.dumps\<close> with its default arguments\<close>

text \<open>
  The exceptions the program can meet. It catches all of them as \<^verbatim>\<open>Exception\<close> and
  only prints them.
\<close>

datatype pyexn = TypeError | ValueError | OSError | OtherError string

definition digit_char :: "nat \<Rightarrow> char" where
  "digit_char d = char_of (48 + d)"

fun nat_repr :: "nat \<Rightarrow> string" where
  "nat_repr n = (if n < 10 then [digit_char n] else nat_repr (n div 10) @ [digit_char (n mod 10)])"

declare nat_repr.simps [simp del]

definition int_repr :: "int \<Rightarrow> string" where
  "int_repr i = (if i < 0 then CHR ''-'' # nat_repr (nat (- i)) else nat_repr (nat i))"

definition hex_digit :: "nat \<Rightarrow> char" where
  "hex_digit d = (if d < 10 then char_of (48 + d) else char_of (87 + d))"

definition hex4 :: "nat \<Rightarrow> string" where
  "hex4 n = [hex_digit (n div 4096 mod 16), hex_digit (n div 256 mod 16),
             hex_digit (n div 16 mod 16), hex_digit (n mod 16)]"

definition backslash :: char where
  "backslash = CHR 0x5C"

text \<open>
  \<^verbatim>\<open>encode_basestring_ascii\<close>: the short escapes, printable ASCII as it is, every other
  code point as \<^verbatim>\<open>\uXXXX\<close> (a surrogate pair above U+FFFF).
\<close>

definition escape_char :: "nat \<Rightarrow> string" where
  "escape_char c =
    (if c = 0x22 then [backslash, CHR 0x22]
     else if c = 0x5C then [backslash, backslash]
     else if c = 0x0A then [backslash, CHR ''n'']
     else if c = 0x0D then [backslash, CHR ''r'']
     else if c = 0x09 then [backslash, CHR ''t'']
     else if c = 0x08 then [backslash, CHR ''b'']
     else if c = 0x0C then [backslash, CHR ''f'']
     else if 0x20 \<le> c \<and> c \<le> 0x7E then [char_of c]
     else if c < 0x10000 then backslash # CHR ''u'' # hex4 c
     else backslash # CHR ''u'' # hex4 (0xD800 + (c - 0x10000) div 1024 mod 1024)
            @ backslash # CHR ''u'' # hex4 (0xDC00 + (c - 0x10000) mod 1024))"

definition encode_basestring_ascii :: "pystr \<Rightarrow> string" where
  "encode_basestring_ascii s = CHR 0x22 # concat (map escape_char s) @ [CHR 0x22]"

text \<open>\<^verbatim>\<open>floatstr\<close>: the three non-finite floats get their JavaScript names.\<close>

definition floatstr :: "string \<Rightarrow> string" where
  "floatstr r =
    (if r = ''nan'' then ''NaN''
     else if r = ''inf'' then ''Infinity''
     else if r = ''-inf'' then ''-Infinity''
     else r)"

fun join :: "string \<Rightarrow> string list \<Rightarrow> string" where
  "join sep [] = []"
| "join sep [x] = x"
| "join sep (x # y # ys) = x @ sep @ join sep (y # ys)"

text \<open>The first exception of a sequence of results, or all the results.\<close>

fun collect :: "(pyexn + 'a) list \<Rightarrow> pyexn + 'a list" where
  "collect [] = Inr []"
| "collect (Inl e # rs) = Inl e"
| "collect (Inr x # rs) = (case collect rs of Inl e \<Rightarrow> Inl e | Inr xs \<Rightarrow> Inr (x # xs))"

text \<open>
  A key is written as a string; \<^verbatim>\<open>json.dumps\<close> raises \<^verbatim>\<open>TypeError\<close> on a key that is
  not \<^verbatim>\<open>str\<close>, \<^verbatim>\<open>int\<close>, \<^verbatim>\<open>float\<close>, \<^verbatim>\<open>bool\<close> or \<^verbatim>\<open>None\<close>.
\<close>

fun key_text :: "pykey \<Rightarrow> pyexn + pystr" where
  "key_text (KStr s) = Inr s"
| "key_text (KInt i) = Inr (str (int_repr i))"
| "key_text (KBytes bs) = Inl TypeError"

fun json_dumps :: "pyval \<Rightarrow> pyexn + string" where
  "json_dumps PNone = Inr ''null''"
| "json_dumps (PBool b) = Inr (if b then ''true'' else ''false'')"
| "json_dumps (PInt i) = Inr (int_repr i)"
| "json_dumps (PFloat r) = Inr (floatstr r)"
| "json_dumps (PStr s) = Inr (encode_basestring_ascii s)"
| "json_dumps (PList xs) =
    (case collect (map json_dumps xs) of
       Inl e \<Rightarrow> Inl e
     | Inr ts \<Rightarrow> Inr (''['' @ join '', '' ts @ '']''))"
| "json_dumps (PTuple xs) =
    (case collect (map json_dumps xs) of
       Inl e \<Rightarrow> Inl e
     | Inr ts \<Rightarrow> Inr (''['' @ join '', '' ts @ '']''))"
| "json_dumps (PDict kvs) =
    (case collect (map (\<lambda>(key, value).
              case key_text key of
                Inl e \<Rightarrow> Inl e
              | Inr k \<Rightarrow> (case json_dumps value of
                            Inl e \<Rightarrow> Inl e
                          | Inr t \<Rightarrow> Inr (encode_basestring_ascii k @ '': '' @ t))) kvs) of
       Inl e \<Rightarrow> Inl e
     | Inr ts \<Rightarrow> Inr (''{'' @ join '', '' ts @ ''}''))"
| "json_dumps (PBytes bs) = Inl TypeError"
| "json_dumps (PByteArray bs) = Inl TypeError"
| "json_dumps (PObject c) = Inl TypeError"

section \<open>Messages and the log record\<close>

text \<open>
  The message objects come from \<^verbatim>\<open>pymavlink\<close>. The logger only calls six accessors on
  a message, so a message is the record of what these return; \<open>to_dict\<close> holds the items
  of the dictionary \<^verbatim>\<open>msg.to_dict()\<close> builds.
\<close>

record message =
  get_type :: pystr
  get_msgId :: int
  get_srcSystem :: int
  get_srcComponent :: int
  get_seq :: int
  to_dict :: "(pykey \<times> pyval) list"


text \<open>
  The dictionary \<^verbatim>\<open>json_entry\<close> of \<^verbatim>\<open>log_mavlink_message\<close>, in the order the literal
  lists its items; \<open>timestamp\<close> is the text of \<^verbatim>\<open>datetime.now(timezone.utc).isoformat()\<close>.
\<close>

definition json_entry :: "pystr \<Rightarrow> message \<Rightarrow> pystr \<Rightarrow> pyval" where
  "json_entry timestamp msg direction = PDict
    [(KStr (str ''timestamp''), PStr timestamp),
     (KStr (str ''system_id''), PInt (get_srcSystem msg)),
     (KStr (str ''component_id''), PInt (get_srcComponent msg)),
     (KStr (str ''msg_id''), PInt (get_msgId msg)),
     (KStr (str ''msg_name''), PStr (get_type msg)),
     (KStr (str ''seq''), PInt (get_seq msg)),
     (KStr (str ''direction''), PStr direction),
     (KStr (str ''payload''), make_json_serializable (PDict (to_dict msg)))]"

section \<open>The logger object and its world\<close>

text \<open>
  What the program prints, one constructor for each \<^verbatim>\<open>print\<close> of the logging and
  stopping code.
\<close>

datatype report =
    JsonLoggingTo string
  | SetupFailed pyexn
  | JsonLoggingError pyexn
  | LoggerConnected
  | JsonLoggerError pyexn
  | ConnectionFailed pyexn
  | JsonLoggingStopped
  | MavproxyStopped
  | ErrorStoppingMavproxy pyexn

text \<open>
  A text file object opened for writing: its path, the text written but not yet flushed,
  and whether it has been closed.
\<close>

record logfile =
  path :: string
  pending :: string
  closed :: bool

datatype process = ProcRunning | ProcExited

datatype thread = Alive | Dead

text \<open>
  The attributes of a \<^verbatim>\<open>MAVProxyWithJSON\<close> object that logging and stopping use, with
  the two parts of the world they act on: the files on disk (path to content) and the
  console. \<open>json_logger\<close> is the thread object, \<open>Alive\<close> until its function returns.
\<close>

record proxy =
  log_dir :: string
  mavproxy_process :: "process option"
  json_logger :: "thread option"
  json_log_file :: "logfile option"
  json_logging_enabled :: bool
  fs :: "string \<rightharpoonup> string"
  console :: "report list"

text \<open>\<^verbatim>\<open>__init__\<close>, on a disk that holds \<open>files\<close>.\<close>

definition init :: "string \<Rightarrow> (string \<rightharpoonup> string) \<Rightarrow> proxy" where
  "init dir files =
    \<lparr>log_dir = dir, mavproxy_process = None, json_logger = None, json_log_file = None,
     json_logging_enabled = True, fs = files, console = []\<rparr>"

definition say :: "report \<Rightarrow> proxy \<Rightarrow> proxy" where
  "say r s = s\<lparr>console := console s @ [r]\<rparr>"

subsection \<open>File operations\<close>

text \<open>
  What the environment does to one \<^verbatim>\<open>write\<close> followed by one \<^verbatim>\<open>flush\<close>: both succeed,
  or the write raises after buffering \<open>n\<close> characters, or the flush raises after moving
  \<open>n\<close> characters to disk.
\<close>

datatype io_outcome = IoOk | WriteFails nat | FlushFails nat

definition fs_append :: "string \<Rightarrow> string \<Rightarrow> (string \<rightharpoonup> string) \<Rightarrow> (string \<rightharpoonup> string)" where
  "fs_append p text files =
    files(p \<mapsto> (case files p of None \<Rightarrow> text | Some content \<Rightarrow> content @ text))"

definition file_write :: "io_outcome \<Rightarrow> string \<Rightarrow> logfile \<Rightarrow> pyexn option \<times> logfile" where
  "file_write io text f =
    (if closed f then (Some ValueError, f)
     else case io of
            WriteFails n \<Rightarrow> (Some OSError, f\<lparr>pending := pending f @ take n text\<rparr>)
          | _ \<Rightarrow> (None, f\<lparr>pending := pending f @ text\<rparr>))"

definition file_flush ::
  "io_outcome \<Rightarrow> logfile \<Rightarrow> (string \<rightharpoonup> string) \<Rightarrow> pyexn option \<times> logfile \<times> (string \<rightharpoonup> string)" where
  "file_flush io f files =
    (if closed f then (Some ValueError, f, files)
     else case io of
            FlushFails n \<Rightarrow>
              (Some OSError, f\<lparr>pending := drop n (pending f)\<rparr>,
               fs_append (path f) (take n (pending f)) files)
          | _ \<Rightarrow> (None, f\<lparr>pending := []\<rparr>, fs_append (path f) (pending f) files))"

text \<open>
  \<^verbatim>\<open>close\<close> flushes and closes; on a closed file it does nothing. Its flush can fail
  after moving \<open>n\<close> characters of the buffered text to disk: then the file is closed
  all the same and the rest of the buffer is lost.
\<close>

definition file_close ::
  "nat option \<Rightarrow> logfile \<Rightarrow> (string \<rightharpoonup> string) \<Rightarrow> pyexn option \<times> logfile \<times> (string \<rightharpoonup> string)" where
  "file_close failure f files =
    (if closed f then (None, f, files)
     else case failure of
            Some n \<Rightarrow>
              (Some OSError, f\<lparr>pending := [], closed := True\<rparr>,
               fs_append (path f) (take n (pending f)) files)
          | None \<Rightarrow>
              (None, f\<lparr>pending := [], closed := True\<rparr>, fs_append (path f) (pending f) files))"

subsection \<open>\<^verbatim>\<open>setup_json_logging\<close>\<close>

text \<open>
  The environment of the call: the local time as \<^verbatim>\<open>strftime("%Y%m%d_%H%M%S")\<close> prints
  it, and the exception \<^verbatim>\<open>open\<close> raises, if any. Mode \<^verbatim>\<open>'w'\<close> creates the file or
  truncates it.
\<close>

record setup_env =
  stamp :: string
  open_error :: "pyexn option"

definition json_log_filename :: "string \<Rightarrow> string \<Rightarrow> string" where
  "json_log_filename dir timestamp = dir @ ''/mavlink_messages_'' @ timestamp @ ''.jsonl''"

definition setup_json_logging :: "setup_env \<Rightarrow> proxy \<Rightarrow> bool \<times> proxy" where
  "setup_json_logging env s =
    (let name = json_log_filename (log_dir s) (stamp env) in
     case open_error env of
       None \<Rightarrow>
         (True, say (JsonLoggingTo name)
                  (s\<lparr>json_log_file := Some \<lparr>path = name, pending = [], closed = False\<rparr>,
                     fs := (fs s)(name \<mapsto> [])\<rparr>))
     | Some e \<Rightarrow> (False, say (SetupFailed e) s))"

subsection \<open>\<^verbatim>\<open>log_mavlink_message\<close>\<close>

definition newline :: char where
  "newline = CHR 0x0A"

text \<open>
  \<open>now\<close> is the clock reading the call takes, \<open>io\<close> what happens to its write and flush.
  The argument of \<^verbatim>\<open>write\<close> is evaluated before \<^verbatim>\<open>write\<close> is called, and every
  exception ends in the handler's \<^verbatim>\<open>print\<close>.
\<close>

definition log_mavlink_message ::
  "pystr \<Rightarrow> io_outcome \<Rightarrow> message \<Rightarrow> pystr \<Rightarrow> proxy \<Rightarrow> proxy" where
  "log_mavlink_message now io msg direction s =
    (case json_log_file s of
       None \<Rightarrow> s
     | Some f \<Rightarrow>
         if \<not> json_logging_enabled s then s
         else
           (case json_dumps (json_entry now msg direction) of
              Inl e \<Rightarrow> say (JsonLoggingError e) s
            | Inr text \<Rightarrow>
                (case file_write io (text @ [newline]) f of
                   (Some e, f') \<Rightarrow> say (JsonLoggingError e) (s\<lparr>json_log_file := Some f'\<rparr>)
                 | (None, f') \<Rightarrow>
                     (case file_flush io f' (fs s) of
                        (Some e, f'', files) \<Rightarrow>
                          say (JsonLoggingError e) (s\<lparr>json_log_file := Some f'', fs := files\<rparr>)
                      | (None, f'', files) \<Rightarrow> s\<lparr>json_log_file := Some f'', fs := files\<rparr>))))"

subsection \<open>\<^verbatim>\<open>stop\<close>\<close>

text \<open>
  The environment of a call of \<^verbatim>\<open>stop\<close>: whether \<^verbatim>\<open>close\<close> raises (and after how
  many characters of the buffer have reached the disk), and what a running
  MAVProxy does on \<^verbatim>\<open>terminate\<close>: it exits within the five seconds, or is killed after
  them, or \<^verbatim>\<open>terminate\<close> raises. On a process that has exited, \<^verbatim>\<open>terminate\<close> does
  nothing and \<^verbatim>\<open>wait\<close> returns at once. An exception of \<^verbatim>\<open>close\<close> is not caught and
  leaves \<^verbatim>\<open>stop\<close>; the result is that exception, if any, and the state.
\<close>

datatype term_outcome = Exits | KilledAfterTimeout | TerminateRaises pyexn

record stop_env =
  close_failure :: "nat option"
  terminated :: term_outcome

definition stop_process :: "term_outcome \<Rightarrow> proxy \<Rightarrow> proxy" where
  "stop_process outcome s =
    (case mavproxy_process s of
       None \<Rightarrow> s
     | Some ProcExited \<Rightarrow> say MavproxyStopped s
     | Some ProcRunning \<Rightarrow>
         (case outcome of
            TerminateRaises e \<Rightarrow> say (ErrorStoppingMavproxy e) s
          | _ \<Rightarrow> say MavproxyStopped (s\<lparr>mavproxy_process := Some ProcExited\<rparr>)))"

definition stop :: "stop_env \<Rightarrow> proxy \<Rightarrow> pyexn option \<times> proxy" where
  "stop env s =
    (if json_logging_enabled s then
       (let s1 = s\<lparr>json_logging_enabled := False\<rparr> in
        case json_log_file s1 of
          None \<Rightarrow> (None, stop_process (terminated env) s1)
        | Some f \<Rightarrow>
            (case file_close (close_failure env) f (fs s1) of
               (Some e, f', files) \<Rightarrow> (Some e, s1\<lparr>json_log_file := Some f', fs := files\<rparr>)
             | (None, f', files) \<Rightarrow>
                 (None, stop_process (terminated env)
                          (say JsonLoggingStopped (s1\<lparr>json_log_file := Some f', fs := files\<rparr>)))))
     else (None, stop_process (terminated env) s))"

subsection \<open>\<^verbatim>\<open>start_json_logger\<close> and the logger thread\<close>

text \<open>
  What \<^verbatim>\<open>recv_match(blocking=True, timeout=1.0)\<close> gives the loop: a message,
  \<^verbatim>\<open>None\<close>, or an exception.
\<close>

datatype recv_result = Message message | NoMessage | RecvRaises pyexn

text \<open>
  One turn of the \<^verbatim>\<open>while\<close> loop as the environment shapes it: whether the main thread
  runs \<^verbatim>\<open>stop\<close> while \<^verbatim>\<open>recv_match\<close> blocks, what \<^verbatim>\<open>recv_match\<close> returns, the clock
  reading and the outcome of the write.
\<close>

record iteration =
  interrupt :: "stop_env option"
  received :: recv_result
  now :: pystr
  io :: io_outcome

definition thread_returns :: "proxy \<Rightarrow> proxy" where
  "thread_returns s = s\<lparr>json_logger := Some Dead\<rparr>"

text \<open>
  The \<^verbatim>\<open>while self.json_logging_enabled\<close> loop over the turns the environment offers.
  The loop is the last statement of the thread function, so leaving it ends the thread;
  when the turns run out the thread is still blocked in \<^verbatim>\<open>recv_match\<close>.
\<close>

fun capture_loop :: "iteration list \<Rightarrow> proxy \<Rightarrow> proxy" where
  "capture_loop [] s = (if \<not> json_logging_enabled s then thread_returns s else s)"
| "capture_loop (it # its) s =
    (if \<not> json_logging_enabled s then thread_returns s
     else
       (let s1 = (case interrupt it of None \<Rightarrow> s | Some env \<Rightarrow> snd (stop env s)) in
        case received it of
          NoMessage \<Rightarrow> capture_loop its s1
        | Message msg \<Rightarrow>
            capture_loop its (log_mavlink_message (now it) (io it) msg (str ''RX'') s1)
        | RecvRaises e \<Rightarrow>
            thread_returns (if json_logging_enabled s1 then say (JsonLoggerError e) s1 else s1)))"

text \<open>
  \<^verbatim>\<open>json_logger_thread\<close>: \<open>connect\<close> is the exception \<^verbatim>\<open>mavutil.mavlink_connection\<close>
  raises, if any.
\<close>

definition json_logger_thread :: "pyexn option \<Rightarrow> iteration list \<Rightarrow> proxy \<Rightarrow> proxy" where
  "json_logger_thread connect its s =
    (case connect of
       Some e \<Rightarrow> thread_returns (say (ConnectionFailed e) s)
     | None \<Rightarrow> capture_loop its (say LoggerConnected s))"

text \<open>
  \<^verbatim>\<open>start_json_logger\<close> returns as soon as the thread is started; the thread connects
  on its own.
\<close>

definition start_json_logger :: "setup_env \<Rightarrow> proxy \<Rightarrow> bool \<times> proxy" where
  "start_json_logger env s =
    (case setup_json_logging env s of
       (False, s') \<Rightarrow> (False, s')
     | (True, s') \<Rightarrow> (True, s'\<lparr>json_logger := Some Alive\<rparr>))"

section \<open>What the properties speak about\<close>

definition printable :: "char \<Rightarrow> bool" where
  "printable c \<longleftrightarrow> (0x20::nat) \<le> of_char c \<and> (of_char c :: nat) \<le> 0x7E"

text \<open>The text of a float: digits, sign, point, exponent, or \<^verbatim>\<open>inf\<close> and \<^verbatim>\<open>nan\<close>.\<close>

definition float_repr_ok :: "string \<Rightarrow> bool" where
  "float_repr_ok r \<longleftrightarrow> r \<noteq> [] \<and> (\<forall>c \<in> set r. c \<in> set ''0123456789.e+-infa'')"

text \<open>
  The values a decoded message can hold: numbers, booleans, \<^verbatim>\<open>None\<close>, strings, binary
  blobs, and sequences and mappings of these, the mappings keyed by field names.
\<close>

fun decoded_value :: "pyval \<Rightarrow> bool" where
  "decoded_value (PFloat r) = float_repr_ok r"
| "decoded_value (PDict kvs) =
    (\<forall>kv \<in> set kvs. (\<exists>name. fst kv = KStr name) \<and> decoded_value (snd kv))"
| "decoded_value (PList xs) = (\<forall>x \<in> set xs. decoded_value x)"
| "decoded_value (PTuple xs) = (\<forall>x \<in> set xs. decoded_value x)"
| "decoded_value (PObject c) = False"
| "decoded_value v = True"

text \<open>
  A JSON-safe tree: null, bool, number, string, array (a list), object (a dictionary with
  string keys). Bytes, tuples and other objects are not part of it.
\<close>

fun json_safe :: "pyval \<Rightarrow> bool" where
  "json_safe PNone = True"
| "json_safe (PBool b) = True"
| "json_safe (PInt i) = True"
| "json_safe (PFloat r) = float_repr_ok r"
| "json_safe (PStr s) = True"
| "json_safe (PDict kvs) =
    (\<forall>kv \<in> set kvs. (\<exists>name. fst kv = KStr name) \<and> json_safe (snd kv))"
| "json_safe (PList xs) = (\<forall>x \<in> set xs. json_safe x)"
| "json_safe v = False"

text \<open>
  Positions in a tree: a path of list indices and dictionary keys leads to the value
  found there, at any depth.
\<close>

datatype selector = Index nat | Key pykey

fun child :: "selector \<Rightarrow> pyval \<Rightarrow> pyval option" where
  "child (Index i) (PList xs) = (if i < length xs then Some (xs ! i) else None)"
| "child (Index i) (PTuple xs) = (if i < length xs then Some (xs ! i) else None)"
| "child (Key k) (PDict kvs) = map_of kvs k"
| "child sel v = None"

fun subval :: "selector list \<Rightarrow> pyval \<Rightarrow> pyval option" where
  "subval [] v = Some v"
| "subval (sel # p) v = (case child sel v of None \<Rightarrow> None | Some c \<Rightarrow> subval p c)"

text \<open>
  The shape of a tree: its mappings with their keys in order, its sequences with their
  elements in order, and a leaf for everything else.
\<close>

datatype shape = Leaf | Sequence "shape list" | Mapping "(pykey \<times> shape) list"

fun shape_of :: "pyval \<Rightarrow> shape" where
  "shape_of (PDict kvs) = Mapping (map (\<lambda>(key, value). (key, shape_of value)) kvs)"
| "shape_of (PList xs) = Sequence (map shape_of xs)"
| "shape_of (PTuple xs) = Sequence (map shape_of xs)"
| "shape_of v = Leaf"

fun leaf_count :: "pyval \<Rightarrow> nat" where
  "leaf_count (PDict kvs) = sum_list (map (\<lambda>(key, value). leaf_count value) kvs)"
| "leaf_count (PList xs) = sum_list (map leaf_count xs)"
| "leaf_count (PTuple xs) = sum_list (map leaf_count xs)"
| "leaf_count v = 1"

definition is_container :: "pyval \<Rightarrow> bool" where
  "is_container v \<longleftrightarrow> (case v of PDict _ \<Rightarrow> True | PList _ \<Rightarrow> True | PTuple _ \<Rightarrow> True | _ \<Rightarrow> False)"

definition is_binary :: "pyval \<Rightarrow> bool" where
  "is_binary v \<longleftrightarrow> (case v of PBytes _ \<Rightarrow> True | PByteArray _ \<Rightarrow> True | _ \<Rightarrow> False)"

text \<open>
  A logger that is ready to append: logging enabled and a log file open. The content of
  the log file on disk, and the lines of a text.
\<close>

definition ready :: "proxy \<Rightarrow> bool" where
  "ready s \<longleftrightarrow> json_logging_enabled s \<and> (\<exists>f. json_log_file s = Some f \<and> \<not> closed f)"

definition log_path :: "proxy \<Rightarrow> string" where
  "log_path s = (case json_log_file s of None \<Rightarrow> [] | Some f \<Rightarrow> path f)"

definition log_pending :: "proxy \<Rightarrow> string" where
  "log_pending s = (case json_log_file s of None \<Rightarrow> [] | Some f \<Rightarrow> pending f)"

definition log_content :: "proxy \<Rightarrow> string" where
  "log_content s = (case fs s (log_path s) of None \<Rightarrow> [] | Some text \<Rightarrow> text)"

text \<open>The line \<^verbatim>\<open>log_mavlink_message\<close> writes for a message, when there is one.\<close>

definition log_line :: "pystr \<Rightarrow> message \<Rightarrow> pystr \<Rightarrow> string option" where
  "log_line timestamp msg direction =
    (case json_dumps (json_entry timestamp msg direction) of
       Inl e \<Rightarrow> None
     | Inr text \<Rightarrow> Some (text @ [newline]))"

text \<open>
  The text a step adds to the log file, on disk or in the buffer of the file object.
\<close>

definition appended :: "proxy \<Rightarrow> proxy \<Rightarrow> string" where
  "appended s s' =
    drop (length (log_content s @ log_pending s)) (log_content s' @ log_pending s')"

text \<open>The frames of a run of the loop, each with the clock reading of its turn.\<close>

fun frames :: "iteration list \<Rightarrow> (pystr \<times> message) list" where
  "frames [] = []"
| "frames (it # its) =
    (case received it of
       Message msg \<Rightarrow> (now it, msg) # frames its
     | _ \<Rightarrow> frames its)"

definition printable_text :: "string \<Rightarrow> bool" where
  "printable_text t \<longleftrightarrow> (\<forall>c \<in> set t. printable c)"

text \<open>
  The text one call of \<^verbatim>\<open>log_mavlink_message\<close> hands to the file: nothing when the
  record cannot be serialized, the part of the line the file took when \<^verbatim>\<open>write\<close>
  fails, the line otherwise.
\<close>

definition written :: "pystr \<Rightarrow> io_outcome \<Rightarrow> message \<Rightarrow> pystr \<Rightarrow> string" where
  "written t outcome msg d =
    (case log_line t msg d of
       None \<Rightarrow> []
     | Some line \<Rightarrow> (case outcome of WriteFails n \<Rightarrow> take n line | _ \<Rightarrow> line))"

text \<open>
  A turn of the loop without trouble: no stop request, the write and the flush succeed,
  and \<^verbatim>\<open>recv_match\<close> returns \<^verbatim>\<open>None\<close> or a decoded message. \<open>line_of\<close> says that a
  text is the line of a frame: its JSON document, free of newlines, and one newline.
\<close>

definition clean_turn :: "iteration \<Rightarrow> bool" where
  "clean_turn it \<longleftrightarrow>
    interrupt it = None \<and> io it = IoOk \<and>
    (case received it of
       Message msg \<Rightarrow> decoded_value (PDict (to_dict msg))
     | NoMessage \<Rightarrow> True
     | RecvRaises e \<Rightarrow> False)"

definition line_of :: "pystr \<times> message \<Rightarrow> string \<Rightarrow> bool" where
  "line_of frame line \<longleftrightarrow>
    (case json_dumps (json_entry (fst frame) (snd frame) (str ''RX'')) of
       Inl e \<Rightarrow> False
     | Inr body \<Rightarrow> newline \<notin> set body \<and> line = body @ [newline])"

section \<open>Sample data\<close>

text \<open>
  A \<^verbatim>\<open>STATUSTEXT\<close> message whose payload holds a blob that is not valid UTF-8 and a
  tuple with a float and a \<^verbatim>\<open>bytearray\<close>.
\<close>

definition statustext :: message where
  "statustext = \<lparr>get_type = str ''STATUSTEXT'', get_msgId = 253, get_srcSystem = 1,
           get_srcComponent = 1, get_seq = 7,
           to_dict = [(KStr (str ''severity''), PInt 6),
                      (KStr (str ''text''), PBytes [0x4F, 0x4B, 0xFF]),
                      (KStr (str ''pos''), PTuple [PFloat ''1.5'', PByteArray [0xC3, 0xA9]])]\<rparr>"

text \<open>A heartbeat with sequence number \<open>n\<close>, and a message that holds a \<^verbatim>\<open>set\<close>.\<close>

definition heartbeat :: "int \<Rightarrow> message" where
  "heartbeat n = \<lparr>get_type = str ''HEARTBEAT'', get_msgId = 0, get_srcSystem = 1,
           get_srcComponent = 1, get_seq = n,
           to_dict = [(KStr (str ''type''), PInt 2)]\<rparr>"

definition tagged :: message where
  "tagged = \<lparr>get_type = str ''TAGGED'', get_msgId = 9, get_srcSystem = 1,
           get_srcComponent = 1, get_seq = 3,
           to_dict = [(KStr (str ''tags''), PList [PInt 1, PObject ''set''])]\<rparr>"

text \<open>
  A logger started on an empty disk, whose log file could be opened, and a turn of the
  loop at clock reading \<^verbatim>\<open>T\<close> with no stop request.
\<close>

definition sample_setup :: setup_env where
  "sample_setup = \<lparr>stamp = ''20260101_000000'', open_error = None\<rparr>"

definition started :: proxy where
  "started = snd (start_json_logger sample_setup (init ''logs'' Map.empty))"

definition turn :: "recv_result \<Rightarrow> io_outcome \<Rightarrow> iteration" where
  "turn r outcome = \<lparr>interrupt = None, received = r, now = str ''T'', io = outcome\<rparr>"

text \<open>
  The line of a heartbeat at clock reading \<^verbatim>\<open>T\<close>, with its sequence number as text, and
  a run of the loop: a heartbeat, a timeout, a second heartbeat.
\<close>

definition quoted :: "string \<Rightarrow> string" where
  "quoted t = CHR 0x22 # t @ [CHR 0x22]"

definition heartbeat_json :: "string \<Rightarrow> string" where
  "heartbeat_json n =
     ''{'' @ quoted ''timestamp'' @ '': '' @ quoted ''T'' @ '', ''
       @ quoted ''system_id'' @ '': 1, '' @ quoted ''component_id'' @ '': 1, ''
       @ quoted ''msg_id'' @ '': 0, '' @ quoted ''msg_name'' @ '': '' @ quoted ''HEARTBEAT'' @ '', ''
       @ quoted ''seq'' @ '': '' @ n @ '', '' @ quoted ''direction'' @ '': '' @ quoted ''RX'' @ '', ''
       @ quoted ''payload'' @ '': {'' @ quoted ''type'' @ '': 2}}''"



text \<open>
  A call of \<^verbatim>\<open>stop\<close> in which nothing goes wrong, a started logger whose MAVProxy is
  running, and that logger after one such call.
\<close>

definition calm :: stop_env where
  "calm = \<lparr>close_failure = None, terminated = Exits\<rparr>"

definition running :: proxy where
  "running = started\<lparr>mavproxy_process := Some ProcRunning\<rparr>"

definition stopped :: proxy where
  "stopped = snd (stop calm running)"

section \<open>Facts about the normalizer\<close>

lemma mjs_safe: "decoded_value v \<Longrightarrow> json_safe (make_json_serializable v)"
  by (induction v rule: make_json_serializable.induct) auto

lemma mjs_shape: "shape_of (make_json_serializable v) = shape_of v"
  by (induction v rule: make_json_serializable.induct) (auto)

lemma mjs_leaves: "leaf_count (make_json_serializable v) = leaf_count v"
  by (induction v rule: make_json_serializable.induct) (auto simp: comp_def case_prod_unfold intro!: arg_cong[where f=sum_list])

lemma map_of_mjs: "map_of (map (\<lambda>(key, value). (key, make_json_serializable value)) kvs) k = map_option make_json_serializable (map_of kvs k)"
  by (induction kvs) auto

lemma child_mjs: "child sel (make_json_serializable v) = map_option make_json_serializable (child sel v)"
  by (cases "(sel, v)" rule: child.cases) (auto simp: map_of_mjs)

lemma subval_mjs: "subval p (make_json_serializable v) = map_option make_json_serializable (subval p v)"
  by (induction p arbitrary: v) (auto simp: child_mjs split: option.splits)

section \<open>Facts about the serializer\<close>

lemma printable_text_Nil [simp]: "printable_text []"
  by (simp add: printable_text_def)

lemma printable_text_Cons [simp]: "printable_text (c # t) \<longleftrightarrow> printable c \<and> printable_text t"
  by (simp add: printable_text_def)

lemma printable_text_append [simp]:
  "printable_text (t @ u) \<longleftrightarrow> printable_text t \<and> printable_text u"
  by (auto simp: printable_text_def)

lemma printable_char_of: "0x20 \<le> n \<Longrightarrow> n \<le> 0x7E \<Longrightarrow> printable (char_of (n::nat))"
  by (simp add: printable_def)

lemma printable_backslash [simp]: "printable backslash"
  by (simp add: printable_def backslash_def)

lemma printable_digit_char: "d < 10 \<Longrightarrow> printable (digit_char d)"
  by (simp add: printable_def digit_char_def)

lemma printable_nat_repr: "printable_text (nat_repr n)"
proof (induction n rule: nat_repr.induct)
  case (1 n)
  show ?case
  proof (cases "n < 10")
    case True
    then show ?thesis
      by (simp add: nat_repr.simps [of n] printable_digit_char)
  next
    case False
    with "1.IH" show ?thesis
      by (simp add: nat_repr.simps [of n] printable_digit_char)
  qed
qed

lemma printable_int_repr: "printable_text (int_repr i)"
  by (simp add: int_repr_def printable_nat_repr) (simp add: printable_def)

lemma printable_hex_digit: "d < 16 \<Longrightarrow> printable (hex_digit d)"
  by (simp add: printable_def hex_digit_def)

lemma printable_hex4: "printable_text (hex4 n)"
  by (simp add: hex4_def printable_hex_digit)

lemma printable_letters:
  "printable (CHR ''n'')" "printable (CHR ''r'')" "printable (CHR ''t'')"
  "printable (CHR ''b'')" "printable (CHR ''f'')" "printable (CHR ''u'')"
  "printable (CHR 0x22)" "printable (CHR ''['')" "printable (CHR '']'')"
  "printable (CHR ''{'')" "printable (CHR ''}'')" "printable (CHR '','')"
  "printable (CHR '' '')" "printable (CHR '':'')"
  by (simp_all add: printable_def)

lemma printable_escape_char: "printable_text (escape_char n)"
  by (simp add: escape_char_def printable_hex4 printable_letters printable_char_of)

lemma printable_concat: "(\<And>t. t \<in> set ts \<Longrightarrow> printable_text t) \<Longrightarrow> printable_text (concat ts)"
  by (induction ts) simp_all

lemma printable_encode: "printable_text (encode_basestring_ascii s)"
  by (auto simp: encode_basestring_ascii_def printable_letters printable_escape_char
        intro!: printable_concat)

lemma printable_floatstr: "float_repr_ok r \<Longrightarrow> printable_text (floatstr r)"
proof -
  assume ok: "float_repr_ok r"
  have "printable_text r"
    unfolding printable_text_def
  proof
    fix c assume "c \<in> set r"
    with ok have "c \<in> set ''0123456789.e+-infa''" by (simp add: float_repr_ok_def)
    then show "printable c" by (auto simp: printable_def)
  qed
  moreover have "printable_text ''NaN''" "printable_text ''Infinity''" "printable_text ''-Infinity''"
    by (simp_all add: printable_def)
  ultimately show ?thesis by (simp add: floatstr_def)
qed

lemma printable_join:
  "(\<And>t. t \<in> set ts \<Longrightarrow> printable_text t) \<Longrightarrow> printable_text sep \<Longrightarrow> printable_text (join sep ts)"
  by (induction sep ts rule: join.induct) simp_all

lemma collect_all_ok:
  "(\<And>r. r \<in> set rs \<Longrightarrow> \<exists>t. r = Inr t \<and> P t) \<Longrightarrow> \<exists>ts. collect rs = Inr ts \<and> (\<forall>t \<in> set ts. P t)"
proof (induction rs)
  case Nil
  show ?case by simp
next
  case (Cons r rs)
  from Cons.prems [of r] obtain t where t: "r = Inr t" "P t" by auto
  from Cons.IH Cons.prems obtain ts where ts: "collect rs = Inr ts" "\<forall>t \<in> set ts. P t"
    by (meson list.set_intros(2))
  from t ts show ?case by simp
qed

lemma printable_brackets:
  "(\<And>t. t \<in> set ts \<Longrightarrow> printable_text t) \<Longrightarrow> printable_text (''['' @ join '', '' ts @ '']'')"
  "(\<And>t. t \<in> set ts \<Longrightarrow> printable_text t) \<Longrightarrow> printable_text (''{'' @ join '', '' ts @ ''}'')"
  by (simp_all add: printable_join printable_letters)

lemma json_dumps_safe:
  "json_safe v \<Longrightarrow> \<exists>t. json_dumps v = Inr t \<and> printable_text t"
proof (induction v rule: json_dumps.induct)
  case (6 xs)
  have "\<exists>t. r = Inr t \<and> printable_text t" if "r \<in> set (map json_dumps xs)" for r
    using that 6 by auto
  from collect_all_ok [of "map json_dumps xs" printable_text, OF this] obtain ts where
    ts: "collect (map json_dumps xs) = Inr ts" "\<forall>t \<in> set ts. printable_text t"
    by blast
  from ts(2) have "printable_text (''['' @ join '', '' ts @ '']'')"
    by (intro printable_brackets) simp
  with ts(1) show ?case by simp
next
  case (8 kvs)
  let ?item = "\<lambda>(key, value).
              case key_text key of
                Inl e \<Rightarrow> Inl e
              | Inr k \<Rightarrow> (case json_dumps value of
                            Inl e \<Rightarrow> Inl e
                          | Inr t \<Rightarrow> Inr (encode_basestring_ascii k @ '': '' @ t))"
  have "\<exists>t. r = Inr t \<and> printable_text t" if "r \<in> set (map ?item kvs)" for r
  proof -
    from that obtain k v where kv: "(k, v) \<in> set kvs" and r: "r = ?item (k, v)" by auto
    from "8.prems" kv obtain name where name: "k = KStr name" and safe: "json_safe v"
      by fastforce
    from "8.IH" [OF kv refl, of name] name safe obtain t where
      t: "json_dumps v = Inr t" "printable_text t" by auto
    have "printable_text (encode_basestring_ascii name @ '': '' @ t)"
      using t(2) by (simp add: printable_encode printable_letters)
    with r name t(1) show ?thesis by simp
  qed
  from collect_all_ok [of "map ?item kvs" printable_text, OF this] obtain ts where
    ts: "collect (map ?item kvs) = Inr ts" "\<forall>t \<in> set ts. printable_text t"
    by blast
  from ts(2) have "printable_text (''{'' @ join '', '' ts @ ''}'')"
    by (intro printable_brackets) simp
  with ts(1) show ?case by simp
qed (simp_all add: printable_int_repr printable_encode printable_floatstr printable_def)

lemma json_entry_safe:
  "decoded_value (PDict (to_dict msg)) \<Longrightarrow> json_safe (json_entry t msg d)"
  using mjs_safe [of "PDict (to_dict msg)"] by (simp add: json_entry_def)

lemma payload_of_entry:
  "child (Key (KStr (str ''payload''))) (json_entry t msg d)
     = Some (make_json_serializable (PDict (to_dict msg)))"
  by (simp add: json_entry_def str_def)

lemma mjs_leaf: "\<not> is_binary w \<Longrightarrow> \<not> is_container w \<Longrightarrow> make_json_serializable w = w"
  by (cases w) (simp_all add: is_binary_def is_container_def)

lemma subval_binary:
  "subval p v = Some (PBytes bs) \<or> subval p v = Some (PByteArray bs)
    \<Longrightarrow> subval p (make_json_serializable v) = Some (PStr (utf8_decode_replace bs))"
  using subval_mjs [of p v] by auto

lemma subval_leaf:
  "subval p v = Some w \<Longrightarrow> \<not> is_binary w \<Longrightarrow> \<not> is_container w
    \<Longrightarrow> subval p (make_json_serializable v) = Some w"
  using subval_mjs [of p v] by (simp add: mjs_leaf)

section \<open>Facts about the sample data\<close>

lemma statustext_decoded: "decoded_value (PDict (to_dict statustext))"
  by (simp add: statustext_def float_repr_ok_def)

lemma decode_e_acute: "utf8_decode_replace [0xC3, 0xA9] = [0xE9]"
  by (simp add: is_continuation_def low6_def)


lemma decode_stray_byte: "utf8_decode_replace [0x4F, 0x4B, 0xFF] = [0x4F, 0x4B, 0xFFFD]"
  by (simp add: is_continuation_def low6_def replacement_char_def)

lemma statustext_sub: "subval [Key (KStr (str ''pos'')), Index 1] (PDict (to_dict statustext)) = Some (PByteArray [0xC3, 0xA9])"
  by (simp add: statustext_def str_def)

lemma started_eq:
  "started = \<lparr>log_dir = ''logs'', mavproxy_process = None, json_logger = Some Alive,
      json_log_file = Some \<lparr>path = ''logs/mavlink_messages_20260101_000000.jsonl'',
                              pending = [], closed = False\<rparr>,
      json_logging_enabled = True,
      fs = [''logs/mavlink_messages_20260101_000000.jsonl'' \<mapsto> []],
      console = [JsonLoggingTo ''logs/mavlink_messages_20260101_000000.jsonl'']\<rparr>"
  by (simp add: started_def start_json_logger_def setup_json_logging_def sample_setup_def
      init_def say_def Let_def json_log_filename_def)

lemma started_ready: "ready started"
  by (simp add: started_eq ready_def)

lemma started_empty: "log_pending started = []" "log_content started = []"
  by (simp_all add: started_eq log_pending_def log_content_def log_path_def)

lemma heartbeat_decoded: "decoded_value (PDict (to_dict (heartbeat n)))"
  by (simp add: heartbeat_def)

section \<open>The normalizer\<close>

text \<open>
  Claim C1. For every decoded message, the record \<^verbatim>\<open>log_mavlink_message\<close> builds is a
  JSON-safe tree: every leaf is null, a bool, a number or a string, every inner node an
  array or an object with string keys. Every \<^verbatim>\<open>bytes\<close> or \<^verbatim>\<open>bytearray\<close> value of
  the payload, at any depth, is found in the record at the same position as the string
  that UTF-8 decoding with replacement gives; no raw bytes are left.
\<close>

theorem normalized_payload_json_safe:
  assumes "decoded_value (PDict (to_dict msg))"
  shows "json_safe (json_entry t msg d)
    \<and> (\<forall>p bs. subval p (PDict (to_dict msg)) = Some (PBytes bs)
                \<or> subval p (PDict (to_dict msg)) = Some (PByteArray bs)
          \<longrightarrow> subval (Key (KStr (str ''payload'')) # p) (json_entry t msg d)
                = Some (PStr (utf8_decode_replace bs)))"
proof (intro conjI allI impI)
  show "json_safe (json_entry t msg d)"
    using assms by (rule json_entry_safe)
next
  fix p bs
  assume "subval p (PDict (to_dict msg)) = Some (PBytes bs)
          \<or> subval p (PDict (to_dict msg)) = Some (PByteArray bs)"
  then have "subval p (make_json_serializable (PDict (to_dict msg)))
               = Some (PStr (utf8_decode_replace bs))"
    by (rule subval_binary)
  then show "subval (Key (KStr (str ''payload'')) # p) (json_entry t msg d)
                = Some (PStr (utf8_decode_replace bs))"
    using payload_of_entry [of t msg d] by (simp del: child.simps make_json_serializable.simps)
qed

theorem normalized_payload_json_safe_witness:
  "decoded_value (PDict (to_dict statustext))
   \<and> json_safe (json_entry (str ''2026-01-01T00:00:00+00:00'') statustext (str ''RX''))
   \<and> subval [Key (KStr (str ''payload'')), Key (KStr (str ''pos'')), Index 1]
         (json_entry (str ''2026-01-01T00:00:00+00:00'') statustext (str ''RX'')) = Some (PStr [0xE9])"
proof -
  let ?t = "str ''2026-01-01T00:00:00+00:00''"
  have d: "decoded_value (PDict (to_dict statustext))" by (rule statustext_decoded)
  note main = normalized_payload_json_safe [OF d, of ?t "str ''RX''"]
  have a: "json_safe (json_entry ?t statustext (str ''RX''))"
    by (rule main [THEN conjunct1])
  have "subval (Key (KStr (str ''payload'')) # [Key (KStr (str ''pos'')), Index 1])
          (json_entry ?t statustext (str ''RX'')) = Some (PStr (utf8_decode_replace [0xC3, 0xA9]))"
    by (rule main [THEN conjunct2, rule_format]) (rule disjI2, rule statustext_sub)
  then have b: "subval [Key (KStr (str ''payload'')), Key (KStr (str ''pos'')), Index 1]
         (json_entry ?t statustext (str ''RX'')) = Some (PStr [0xE9])"
    by (simp only: decode_e_acute)
  from d a b show ?thesis by (intro conjI)
qed


text \<open>
  Claim C2. Normalization keeps the shape of a payload tree of any depth: the same
  mappings with the same keys in the same order, the same sequences with their elements
  in the same order, the same number of leaves. A leaf that is not binary is unchanged,
  a binary leaf becomes the decoded string, and the tree of a decoded message becomes
  JSON-safe. (Python's recursion limit is outside the model.)
\<close>

theorem normalize_keeps_shape:
  "shape_of (make_json_serializable v) = shape_of v
   \<and> leaf_count (make_json_serializable v) = leaf_count v
   \<and> (decoded_value v \<longrightarrow> json_safe (make_json_serializable v))
   \<and> (\<forall>p w. subval p v = Some w \<and> \<not> is_binary w \<and> \<not> is_container w
         \<longrightarrow> subval p (make_json_serializable v) = Some w)
   \<and> (\<forall>p bs. subval p v = Some (PBytes bs) \<or> subval p v = Some (PByteArray bs)
         \<longrightarrow> subval p (make_json_serializable v) = Some (PStr (utf8_decode_replace bs)))"
  using mjs_shape [of v] mjs_leaves [of v] mjs_safe [of v] subval_leaf [of _ v] subval_binary [of _ v]
  by blast


theorem normalize_keeps_shape_witness:
  "shape_of (make_json_serializable (PDict (to_dict statustext)))
       = Mapping [(KStr (str ''severity''), Leaf), (KStr (str ''text''), Leaf),
                  (KStr (str ''pos''), Sequence [Leaf, Leaf])]
   \<and> leaf_count (make_json_serializable (PDict (to_dict statustext))) = 4
   \<and> decoded_value (PDict (to_dict statustext))
   \<and> json_safe (make_json_serializable (PDict (to_dict statustext)))
   \<and> subval [Key (KStr (str ''severity''))] (make_json_serializable (PDict (to_dict statustext)))
       = Some (PInt 6)
   \<and> subval [Key (KStr (str ''text''))] (make_json_serializable (PDict (to_dict statustext)))
       = Some (PStr [0x4F, 0x4B, 0xFFFD])"
proof -
  let ?P = "PDict (to_dict statustext)"
  note main = normalize_keeps_shape [of ?P]
  have sh: "shape_of ?P = Mapping [(KStr (str ''severity''), Leaf), (KStr (str ''text''), Leaf),
                  (KStr (str ''pos''), Sequence [Leaf, Leaf])]"
    by (simp add: statustext_def)
  have lc: "leaf_count ?P = 4"
    by (simp add: statustext_def)
  have d: "decoded_value ?P" by (rule statustext_decoded)
  have s1: "subval [Key (KStr (str ''severity''))] ?P = Some (PInt 6)
            \<and> \<not> is_binary (PInt 6) \<and> \<not> is_container (PInt 6)"
    by (simp add: statustext_def str_def is_binary_def is_container_def)
  have s2: "subval [Key (KStr (str ''text''))] ?P = Some (PBytes [0x4F, 0x4B, 0xFF])"
    by (simp add: statustext_def str_def)
  have c1: "shape_of (make_json_serializable ?P) = shape_of ?P"
    by (rule main [THEN conjunct1])
  have c2: "leaf_count (make_json_serializable ?P) = leaf_count ?P"
    by (rule main [THEN conjunct2, THEN conjunct1])
  have c3: "json_safe (make_json_serializable ?P)"
    by (rule main [THEN conjunct2, THEN conjunct2, THEN conjunct1, rule_format]) (rule d)
  have c4: "subval [Key (KStr (str ''severity''))] (make_json_serializable ?P) = Some (PInt 6)"
    by (rule main [THEN conjunct2, THEN conjunct2, THEN conjunct2, THEN conjunct1, rule_format])
       (rule s1)
  have "subval [Key (KStr (str ''text''))] (make_json_serializable ?P)
          = Some (PStr (utf8_decode_replace [0x4F, 0x4B, 0xFF]))"
    by (rule main [THEN conjunct2, THEN conjunct2, THEN conjunct2, THEN conjunct2, rule_format])
       (rule disjI1, rule s2)
  then have c5: "subval [Key (KStr (str ''text''))] (make_json_serializable ?P)
          = Some (PStr [0x4F, 0x4B, 0xFFFD])"
    by (simp only: decode_stray_byte)
  from c1 sh have c1': "shape_of (make_json_serializable ?P)
       = Mapping [(KStr (str ''severity''), Leaf), (KStr (str ''text''), Leaf),
                  (KStr (str ''pos''), Sequence [Leaf, Leaf])]"
    by (rule trans)
  from c2 lc have c2': "leaf_count (make_json_serializable ?P) = 4"
    by (rule trans)
  from c1' c2' d c3 c4 c5 show ?thesis by (intro conjI)
qed

section \<open>Facts about appending and the capture loop\<close>

lemma printable_no_newline: "printable_text t \<Longrightarrow> newline \<notin> set t"
  by (auto simp: printable_text_def printable_def newline_def)

lemma decoded_line:
  assumes "decoded_value (PDict (to_dict msg))"
  shows "\<exists>text. json_dumps (json_entry t msg d) = Inr text \<and> newline \<notin> set text"
  using json_dumps_safe [OF json_entry_safe [OF assms, of t d]] printable_no_newline by blast

lemma log_ok:
  assumes "ready s" and "json_dumps (json_entry t msg d) = Inr text"
  shows "log_content (log_mavlink_message t IoOk msg d s)
           = log_content s @ log_pending s @ text @ [newline]"
    and "log_pending (log_mavlink_message t IoOk msg d s) = []"
    and "log_path (log_mavlink_message t IoOk msg d s) = log_path s"
    and "ready (log_mavlink_message t IoOk msg d s)"
    and "console (log_mavlink_message t IoOk msg d s) = console s"
    and "json_logger (log_mavlink_message t IoOk msg d s) = json_logger s"
    and "json_logging_enabled (log_mavlink_message t IoOk msg d s)"
proof -
  from assms(1) obtain f where f: "json_log_file s = Some f" "\<not> closed f" "json_logging_enabled s"
    by (auto simp: ready_def)
  have eq: "log_mavlink_message t IoOk msg d s
    = s\<lparr>json_log_file := Some (f\<lparr>pending := []\<rparr>),
        fs := fs_append (path f) (pending f @ text @ [newline]) (fs s)\<rparr>"
    using f assms(2) by (simp add: log_mavlink_message_def file_write_def file_flush_def)
  show "log_content (log_mavlink_message t IoOk msg d s)
           = log_content s @ log_pending s @ text @ [newline]"
    using f by (simp add: eq log_content_def log_path_def log_pending_def fs_append_def
        split: option.splits)
  show "log_pending (log_mavlink_message t IoOk msg d s) = []"
    by (simp add: eq log_pending_def)
  show "log_path (log_mavlink_message t IoOk msg d s) = log_path s"
    using f by (simp add: eq log_path_def)
  show "ready (log_mavlink_message t IoOk msg d s)"
    using f by (simp add: eq ready_def)
  show "console (log_mavlink_message t IoOk msg d s) = console s"
    by (simp add: eq)
  show "json_logger (log_mavlink_message t IoOk msg d s) = json_logger s"
    by (simp add: eq)
  show "json_logging_enabled (log_mavlink_message t IoOk msg d s)"
    using f by (simp add: eq)
qed


lemma log_unserializable:
  assumes "ready s" and "json_dumps (json_entry t msg d) = Inl e"
  shows "log_mavlink_message t outcome msg d s = say (JsonLoggingError e) s"
  using assms by (auto simp: ready_def log_mavlink_message_def)

lemma log_fail:
  assumes "ready s" and "json_dumps (json_entry t msg d) = Inr text" and "outcome \<noteq> IoOk"
  shows "console (log_mavlink_message t outcome msg d s) = console s @ [JsonLoggingError OSError]"
    and "ready (log_mavlink_message t outcome msg d s)"
    and "json_logger (log_mavlink_message t outcome msg d s) = json_logger s"
    and "log_path (log_mavlink_message t outcome msg d s) = log_path s"
proof -
  from assms(1) obtain f where f: "json_log_file s = Some f" "\<not> closed f" "json_logging_enabled s"
    by (auto simp: ready_def)
  from assms(3) consider n where "outcome = WriteFails n" | n where "outcome = FlushFails n"
    by (cases outcome) auto
  then have "console (log_mavlink_message t outcome msg d s) = console s @ [JsonLoggingError OSError]
    \<and> ready (log_mavlink_message t outcome msg d s)
    \<and> json_logger (log_mavlink_message t outcome msg d s) = json_logger s
    \<and> log_path (log_mavlink_message t outcome msg d s) = log_path s"
  proof cases
    case 1
    with f assms(2) show ?thesis
      by (simp add: log_mavlink_message_def file_write_def say_def ready_def log_path_def)
  next
    case 2
    with f assms(2) show ?thesis
      by (simp add: log_mavlink_message_def file_write_def file_flush_def say_def ready_def
          log_path_def)
  qed
  then show "console (log_mavlink_message t outcome msg d s) = console s @ [JsonLoggingError OSError]"
    and "ready (log_mavlink_message t outcome msg d s)"
    and "json_logger (log_mavlink_message t outcome msg d s) = json_logger s"
    and "log_path (log_mavlink_message t outcome msg d s) = log_path s"
    by simp_all
qed

lemma log_total:
  assumes "ready s"
  shows "log_content (log_mavlink_message t outcome msg d s)
           @ log_pending (log_mavlink_message t outcome msg d s)
         = log_content s @ log_pending s @ written t outcome msg d"
proof -
  from assms obtain f where f: "json_log_file s = Some f" "\<not> closed f" "json_logging_enabled s"
    by (auto simp: ready_def)
  show ?thesis
  proof (cases "json_dumps (json_entry t msg d)")
    case (Inl e)
    with f show ?thesis
      by (simp add: log_mavlink_message_def written_def log_line_def say_def log_content_def
          log_path_def log_pending_def)
  next
    case (Inr body)
    show ?thesis
    proof (cases outcome)
      case IoOk
      with f Inr show ?thesis
        by (simp add: log_mavlink_message_def written_def log_line_def file_write_def
            file_flush_def log_content_def log_path_def log_pending_def fs_append_def
            split: option.splits)
    next
      case (WriteFails n)
      with f Inr show ?thesis
        by (simp add: log_mavlink_message_def written_def log_line_def file_write_def
            say_def log_content_def log_path_def log_pending_def)
    next
      case (FlushFails n)
      with f Inr show ?thesis
        by (simp add: log_mavlink_message_def written_def log_line_def file_write_def
            file_flush_def say_def log_content_def log_path_def log_pending_def fs_append_def
            split: option.splits del: take_append drop_append)
    qed
  qed
qed

lemma appended_log:
  assumes "ready s"
  shows "appended s (log_mavlink_message t outcome msg d s) = written t outcome msg d"
  using log_total [OF assms, of t outcome msg d] by (simp add: appended_def)


lemma say_ready: "ready (say r s) = ready s"
  by (simp add: say_def ready_def)

lemma log_ready: "ready s \<Longrightarrow> ready (log_mavlink_message t outcome msg d s)"
proof -
  assume r: "ready s"
  show ?thesis
  proof (cases "json_dumps (json_entry t msg d)")
    case (Inl e)
    with r show ?thesis by (simp add: log_unserializable say_ready)
  next
    case (Inr body)
    show ?thesis
    proof (cases "outcome = IoOk")
      case True
      with log_ok(4) [OF r Inr] show ?thesis by simp
    next
      case False
      with log_fail(2) [OF r Inr] show ?thesis by simp
    qed
  qed
qed

lemma clean_loop_total:
  assumes "\<forall>it \<in> set its. clean_turn it" and "ready s"
  shows "\<exists>lines. list_all2 line_of (frames its) lines
           \<and> log_content (capture_loop its s) @ log_pending (capture_loop its s)
               = log_content s @ log_pending s @ concat lines
           \<and> (frames its \<noteq> [] \<or> log_pending s = [] \<longrightarrow> log_pending (capture_loop its s) = [])
           \<and> ready (capture_loop its s)
           \<and> console (capture_loop its s) = console s
           \<and> json_logger (capture_loop its s) = json_logger s"
  using assms
proof (induction its arbitrary: s)
  case Nil
  then show ?case by (simp add: ready_def)
next
  case (Cons it its)
  from Cons.prems have it: "clean_turn it" and rest: "\<forall>it \<in> set its. clean_turn it"
    by simp_all
  from Cons.prems have en: "json_logging_enabled s" by (simp add: ready_def)
  show ?case
  proof (cases "received it")
    case NoMessage
    with it en have step: "capture_loop (it # its) s = capture_loop its s"
      by (simp add: clean_turn_def)
    from Cons.IH [OF rest Cons.prems(2)] obtain lines where lines:
      "list_all2 line_of (frames its) lines"
      "log_content (capture_loop its s) @ log_pending (capture_loop its s)
               = log_content s @ log_pending s @ concat lines"
      "frames its \<noteq> [] \<or> log_pending s = [] \<longrightarrow> log_pending (capture_loop its s) = []"
      "ready (capture_loop its s)"
      "console (capture_loop its s) = console s"
      "json_logger (capture_loop its s) = json_logger s"
      by blast
    have fr: "frames (it # its) = frames its" using NoMessage by simp
    from lines show ?thesis unfolding step fr by blast
  next
    case (RecvRaises e)
    with it show ?thesis by (simp add: clean_turn_def)
  next
    case (Message msg)
    let ?s1 = "log_mavlink_message (now it) IoOk msg (str ''RX'') s"
    from it Message have dec: "decoded_value (PDict (to_dict msg))"
      and quiet: "interrupt it = None" "io it = IoOk"
      by (simp_all add: clean_turn_def)
    from decoded_line [OF dec, of "now it" "str ''RX''"] obtain body where
      body: "json_dumps (json_entry (now it) msg (str ''RX'')) = Inr body" "newline \<notin> set body"
      by blast
    from Message quiet en have step: "capture_loop (it # its) s = capture_loop its ?s1"
      by simp
    note ok = log_ok [OF Cons.prems(2) body(1)]
    from Cons.IH [OF rest ok(4)] obtain lines where lines:
      "list_all2 line_of (frames its) lines"
      "log_content (capture_loop its ?s1) @ log_pending (capture_loop its ?s1)
               = log_content ?s1 @ log_pending ?s1 @ concat lines"
      "frames its \<noteq> [] \<or> log_pending ?s1 = [] \<longrightarrow> log_pending (capture_loop its ?s1) = []"
      "ready (capture_loop its ?s1)"
      "console (capture_loop its ?s1) = console ?s1"
      "json_logger (capture_loop its ?s1) = json_logger ?s1"
      by blast
    have first: "line_of (now it, msg) (body @ [newline])"
      using body by (simp add: line_of_def)
    have "list_all2 line_of (frames (it # its)) ((body @ [newline]) # lines)"
      using Message first lines(1) by simp
    moreover have "log_content (capture_loop (it # its) s) @ log_pending (capture_loop (it # its) s)
                     = log_content s @ log_pending s @ concat ((body @ [newline]) # lines)"
      using step lines(2) ok(1) ok(2) by simp
    moreover have "log_pending (capture_loop (it # its) s) = []"
      using step lines(3) ok(2) by simp
    moreover have "ready (capture_loop (it # its) s)"
      using step lines(4) by simp
    moreover have "console (capture_loop (it # its) s) = console s"
      using step lines(5) ok(5) by simp
    moreover have "json_logger (capture_loop (it # its) s) = json_logger s"
      using step lines(6) ok(6) by simp
    ultimately show ?thesis by blast
  qed
qed


lemma char_of_nat_eq: "(char_of (n::nat) = c) = (n mod 256 = of_char c)"
  by (metis of_char_of char_of_char)

lemmas dumps_eval = json_entry_def str_def encode_basestring_ascii_def escape_char_def
  int_repr_def nat_repr.simps digit_char_def hex4_def hex_digit_def backslash_def char_of_nat_eq

lemma heartbeat_1_json:
  "json_dumps (json_entry (str ''T'') (heartbeat 1) (str ''RX'')) = Inr (heartbeat_json ''1'')"
  by (simp add: dumps_eval heartbeat_def heartbeat_json_def quoted_def)

lemma heartbeat_2_json:
  "json_dumps (json_entry (str ''T'') (heartbeat 2) (str ''RX'')) = Inr (heartbeat_json ''2'')"
  by (simp add: dumps_eval heartbeat_def heartbeat_json_def quoted_def)




section \<open>The log writer\<close>





section \<open>Failures of serialization and of writing\<close>

lemma collect_fails: "Inl e \<in> set rs \<Longrightarrow> \<exists>e'. collect rs = Inl e'"
  by (induction rs rule: collect.induct) (auto split: sum.splits)

lemma collect_Inl: "collect rs = Inl e \<Longrightarrow> Inl e \<in> set rs"
  by (induction rs rule: collect.induct) (auto split: sum.splits)

lemma json_dumps_error: "json_dumps v = Inl e \<Longrightarrow> e = TypeError"
proof (induction v arbitrary: e rule: json_dumps.induct)
  case (6 xs)
  from "6.prems" have "collect (map json_dumps xs) = Inl e"
    by (simp split: sum.splits)
  then have "Inl e \<in> set (map json_dumps xs)" by (rule collect_Inl)
  then obtain x where "x \<in> set xs" "json_dumps x = Inl e" by auto
  then show ?case by (rule "6.IH")
next
  case (7 xs)
  from "7.prems" have "collect (map json_dumps xs) = Inl e"
    by (simp split: sum.splits)
  then have "Inl e \<in> set (map json_dumps xs)" by (rule collect_Inl)
  then obtain x where "x \<in> set xs" "json_dumps x = Inl e" by auto
  then show ?case by (rule "7.IH")
next
  case (8 kvs)
  let ?item = "\<lambda>(key, value).
              case key_text key of
                Inl e \<Rightarrow> Inl e
              | Inr k \<Rightarrow> (case json_dumps value of
                            Inl e \<Rightarrow> Inl e
                          | Inr t \<Rightarrow> Inr (encode_basestring_ascii k @ '': '' @ t))"
  from "8.prems" have "collect (map ?item kvs) = Inl e"
    by (simp split: sum.splits)
  then have "Inl e \<in> set (map ?item kvs)" by (rule collect_Inl)
  then obtain k v where kv: "(k, v) \<in> set kvs" and it: "?item (k, v) = Inl e" by auto
  show ?case
  proof (cases "key_text k")
    case (Inl e')
    with it have "e' = e" by simp
    with Inl show ?thesis by (cases k) simp_all
  next
    case (Inr name)
    with it have "json_dumps v = Inl e" by (simp split: sum.splits)
    with "8.IH" [OF kv refl Inr] show ?thesis by simp
  qed
qed simp_all

lemma child_fails:
  assumes "child sel v = Some c" and "json_dumps c = Inl e"
  shows "json_dumps v = Inl TypeError"
proof -
  have "\<exists>e'. json_dumps v = Inl e'"
  proof (cases "(sel, v)" rule: child.cases)
    case (1 i xs)
    with assms have "c \<in> set xs" by (auto split: if_splits)
    with assms(2) have "Inl e \<in> set (map json_dumps xs)" by force
    from collect_fails [OF this] 1 show ?thesis by auto
  next
    case (2 i xs)
    with assms have "c \<in> set xs" by (auto split: if_splits)
    with assms(2) have "Inl e \<in> set (map json_dumps xs)" by force
    from collect_fails [OF this] 2 show ?thesis by auto
  next
    case (3 k kvs)
    let ?item = "\<lambda>(key, value).
              case key_text key of
                Inl e \<Rightarrow> Inl e
              | Inr k \<Rightarrow> (case json_dumps value of
                            Inl e \<Rightarrow> Inl e
                          | Inr t \<Rightarrow> Inr (encode_basestring_ascii k @ '': '' @ t))"
    from 3 assms have "(k, c) \<in> set kvs" by (auto dest: map_of_SomeD)
    moreover from assms(2) obtain e' where "?item (k, c) = Inl e'"
      by (cases "key_text k") auto
    ultimately have "Inl e' \<in> set (map ?item kvs)" by force
    from collect_fails [OF this] 3 show ?thesis by auto
  qed (use assms in auto)
  then show ?thesis using json_dumps_error by blast
qed

lemma subval_fails:
  "subval p v = Some w \<Longrightarrow> json_dumps w = Inl e \<Longrightarrow> json_dumps v = Inl TypeError"
proof (induction p arbitrary: v)
  case Nil
  then show ?case using json_dumps_error by auto
next
  case (Cons sel p)
  from Cons.prems(1) obtain c where c: "child sel v = Some c" "subval p c = Some w"
    by (auto split: option.splits)
  from Cons.IH [OF c(2) Cons.prems(2)] have "json_dumps c = Inl TypeError" .
  with c(1) show ?case by (rule child_fails)
qed

lemma tagged_sub:
  "subval [Key (KStr (str ''tags'')), Index 1] (PDict (to_dict tagged)) = Some (PObject ''set'')"
  by (simp add: tagged_def str_def)

lemma written_heartbeat_1:
  "written (str ''T'') outcome (heartbeat 1) (str ''RX'')
     = (case outcome of WriteFails n \<Rightarrow> take n (heartbeat_json ''1'' @ [newline])
        | _ \<Rightarrow> heartbeat_json ''1'' @ [newline])"
  by (simp add: written_def log_line_def heartbeat_1_json)

lemma turn_simps:
  "interrupt (turn r outcome) = None" "received (turn r outcome) = r"
  "now (turn r outcome) = str ''T''" "io (turn r outcome) = outcome"
  by (simp_all add: turn_def)

text \<open>
  Claim C5. When the write or the flush of one record fails, \<^verbatim>\<open>log_mavlink_message\<close>
  reports the error and returns, and the loop goes on with its next turn: the logger is
  still ready, the thread is still alive at the end of the run, and the frames of the
  following clean turns are appended, one line each and in order, after whatever part
  of the failed line the file had taken.
\<close>

theorem failed_write_keeps_loop_running:
  assumes "ready s" and "interrupt it = None" and "received it = Message msg"
    and "io it \<noteq> IoOk"
    and "json_dumps (json_entry (now it) msg (str ''RX'')) = Inr body"
    and "\<forall>it' \<in> set its. clean_turn it'"
  shows "capture_loop (it # its) s
           = capture_loop its (log_mavlink_message (now it) (io it) msg (str ''RX'') s)
    \<and> console (log_mavlink_message (now it) (io it) msg (str ''RX'') s)
         = console s @ [JsonLoggingError OSError]
    \<and> ready (log_mavlink_message (now it) (io it) msg (str ''RX'') s)
    \<and> json_logger (capture_loop (it # its) s) = json_logger s
    \<and> ready (capture_loop (it # its) s)
    \<and> (\<exists>lines. list_all2 line_of (frames its) lines
          \<and> log_content (capture_loop (it # its) s) @ log_pending (capture_loop (it # its) s)
              = log_content s @ log_pending s @ written (now it) (io it) msg (str ''RX'')
                  @ concat lines
          \<and> (frames its \<noteq> [] \<longrightarrow> log_pending (capture_loop (it # its) s) = []))"
proof -
  let ?s1 = "log_mavlink_message (now it) (io it) msg (str ''RX'') s"
  from assms(1) have en: "json_logging_enabled s" by (simp add: ready_def)
  with assms(2,3) have step: "capture_loop (it # its) s = capture_loop its ?s1"
    by simp
  note fail = log_fail [OF assms(1) assms(5) assms(4)]
  from clean_loop_total [OF assms(6) fail(2)] obtain lines where lines:
    "list_all2 line_of (frames its) lines"
    "log_content (capture_loop its ?s1) @ log_pending (capture_loop its ?s1)
       = log_content ?s1 @ log_pending ?s1 @ concat lines"
    "ready (capture_loop its ?s1)"
    "json_logger (capture_loop its ?s1) = json_logger ?s1"
    "frames its \<noteq> [] \<longrightarrow> log_pending (capture_loop its ?s1) = []"
    by blast
  from lines(2) log_total [OF assms(1), of "now it" "io it" msg "str ''RX''"]
  have total: "log_content (capture_loop its ?s1) @ log_pending (capture_loop its ?s1)
       = log_content s @ log_pending s @ written (now it) (io it) msg (str ''RX'') @ concat lines"
    by (metis append.assoc)
  from step fail lines(1,3,4,5) total show ?thesis by auto
qed

theorem failed_write_keeps_loop_running_witness:
  "ready started
   \<and> io (turn (Message (heartbeat 1)) (WriteFails 5)) \<noteq> IoOk
   \<and> clean_turn (turn (Message (heartbeat 2)) IoOk)
   \<and> console (log_mavlink_message (str ''T'') (WriteFails 5) (heartbeat 1) (str ''RX'') started)
       = console started @ [JsonLoggingError OSError]
   \<and> json_logger (capture_loop [turn (Message (heartbeat 1)) (WriteFails 5),
                                  turn (Message (heartbeat 2)) IoOk] started) = Some Alive
   \<and> log_content (capture_loop [turn (Message (heartbeat 1)) (WriteFails 5),
                                  turn (Message (heartbeat 2)) IoOk] started)
       = take 5 (heartbeat_json ''1'' @ [newline]) @ heartbeat_json ''2'' @ [newline]
   \<and> log_pending (capture_loop [turn (Message (heartbeat 1)) (WriteFails 5),
                                  turn (Message (heartbeat 2)) IoOk] started) = []"
proof -
  let ?bad = "turn (Message (heartbeat 1)) (WriteFails 5)"
  let ?good = "turn (Message (heartbeat 2)) IoOk"
  have h2: "interrupt ?bad = None" by (simp add: turn_simps)
  have h3: "received ?bad = Message (heartbeat 1)" by (simp add: turn_simps)
  have h4: "io ?bad \<noteq> IoOk" by (simp add: turn_simps)
  have h5: "json_dumps (json_entry (now ?bad) (heartbeat 1) (str ''RX''))
              = Inr (heartbeat_json ''1'')"
    by (simp only: turn_simps heartbeat_1_json)
  have g: "clean_turn ?good"
    using heartbeat_decoded [of 2] by (simp add: clean_turn_def turn_simps)
  then have h6: "\<forall>it' \<in> set [?good]. clean_turn it'" by simp
  note main = failed_write_keeps_loop_running [OF started_ready h2 h3 h4 h5 h6]
  have a: "console (log_mavlink_message (str ''T'') (WriteFails 5) (heartbeat 1)
                        (str ''RX'') started) = console started @ [JsonLoggingError OSError]"
    using main [THEN conjunct2, THEN conjunct1] by (simp only: turn_simps)
  have js: "json_logger started = Some Alive" by (simp add: started_eq)
  from main [THEN conjunct2, THEN conjunct2, THEN conjunct2, THEN conjunct1] js
  have b: "json_logger (capture_loop [?bad, ?good] started) = Some Alive"
    by (rule trans)
  from main obtain lines where lines:
    "list_all2 line_of (frames [?good]) lines"
    "log_content (capture_loop [?bad, ?good] started) @ log_pending (capture_loop [?bad, ?good] started)
       = log_content started @ log_pending started
           @ written (now ?bad) (io ?bad) (heartbeat 1) (str ''RX'') @ concat lines"
    "frames [?good] \<noteq> [] \<longrightarrow> log_pending (capture_loop [?bad, ?good] started) = []"
    by blast
  have "frames [?good] \<noteq> []" by (simp add: turn_simps)
  with lines(3) have p: "log_pending (capture_loop [?bad, ?good] started) = []"
    by (rule mp)
  have fr: "frames [?good] = [(str ''T'', heartbeat 2)]" by (simp add: turn_simps)
  from lines(1) obtain l where l: "lines = [l]" "line_of (str ''T'', heartbeat 2) l"
    unfolding fr by (auto simp: list_all2_Cons1)
  from l(2) have l2: "l = heartbeat_json ''2'' @ [newline]"
    by (simp add: line_of_def heartbeat_2_json)
  from lines(2) p have c: "log_content (capture_loop [?bad, ?good] started)
       = take 5 (heartbeat_json ''1'' @ [newline]) @ heartbeat_json ''2'' @ [newline]"
    by (simp add: l(1) l2 started_empty turn_simps written_heartbeat_1
        del: take_append capture_loop.simps)
  from started_ready h4 g a b c p show ?thesis by (intro conjI)
qed

text \<open>
  Claim C3. The record is a function of the message, the direction and the timestamp
  alone: whatever the state of the logger, the same message logged at the same clock
  reading adds the same text to the log, and logging it a second time adds the same text
  once more.
\<close>

theorem log_record_is_deterministic:
  assumes "ready s" and "ready s'"
  shows "appended s (log_mavlink_message t outcome msg d s)
           = appended s' (log_mavlink_message t outcome msg d s')
    \<and> appended s (log_mavlink_message t outcome msg d s) = written t outcome msg d
    \<and> appended (log_mavlink_message t outcome msg d s)
         (log_mavlink_message t outcome msg d (log_mavlink_message t outcome msg d s))
       = written t outcome msg d"
  using appended_log [OF assms(1)] appended_log [OF assms(2)]
    appended_log [OF log_ready [OF assms(1)]]
  by simp


theorem log_record_is_deterministic_witness:
  "ready started \<and> ready (say LoggerConnected started)
   \<and> appended started (log_mavlink_message (str ''T'') IoOk (heartbeat 1) (str ''RX'') started)
       = heartbeat_json ''1'' @ [newline]
   \<and> appended (say LoggerConnected started)
        (log_mavlink_message (str ''T'') IoOk (heartbeat 1) (str ''RX'') (say LoggerConnected started))
       = heartbeat_json ''1'' @ [newline]
   \<and> appended (log_mavlink_message (str ''T'') IoOk (heartbeat 1) (str ''RX'') started)
        (log_mavlink_message (str ''T'') IoOk (heartbeat 1) (str ''RX'')
          (log_mavlink_message (str ''T'') IoOk (heartbeat 1) (str ''RX'') started))
       = heartbeat_json ''1'' @ [newline]"
proof -
  have r2: "ready (say LoggerConnected started)"
    using started_ready by (simp add: say_ready)
  note main = log_record_is_deterministic
    [OF started_ready r2, of "str ''T''" IoOk "heartbeat 1" "str ''RX''"]
  have w: "written (str ''T'') IoOk (heartbeat 1) (str ''RX'') = heartbeat_json ''1'' @ [newline]"
    by (simp add: written_heartbeat_1)
  from main [THEN conjunct2, THEN conjunct1] w have a: "appended started
        (log_mavlink_message (str ''T'') IoOk (heartbeat 1) (str ''RX'') started)
       = heartbeat_json ''1'' @ [newline]"
    by (rule trans)
  from main [THEN conjunct1, symmetric] a have b: "appended (say LoggerConnected started)
        (log_mavlink_message (str ''T'') IoOk (heartbeat 1) (str ''RX'') (say LoggerConnected started))
       = heartbeat_json ''1'' @ [newline]"
    by (rule trans)
  from main [THEN conjunct2, THEN conjunct2] w
  have c: "appended (log_mavlink_message (str ''T'') IoOk (heartbeat 1) (str ''RX'') started)
        (log_mavlink_message (str ''T'') IoOk (heartbeat 1) (str ''RX'')
          (log_mavlink_message (str ''T'') IoOk (heartbeat 1) (str ''RX'') started))
       = heartbeat_json ''1'' @ [newline]"
    by (rule trans)
  from started_ready r2 a b c show ?thesis by (intro conjI)
qed


text \<open>
  Claim C10. A value that is not \<^verbatim>\<open>bytes\<close>, \<^verbatim>\<open>bytearray\<close>, \<^verbatim>\<open>dict\<close>, \<^verbatim>\<open>list\<close> or
  \<^verbatim>\<open>tuple\<close> passes through the normalizer unchanged, at any depth of the payload. If
  \<^verbatim>\<open>json.dumps\<close> cannot serialize it, the serialization of the whole record raises
  \<^verbatim>\<open>TypeError\<close> before \<^verbatim>\<open>write\<close> is called: the call only prints the error, the file
  object and the disk are unchanged and no text is added, whatever the write would have
  done.
\<close>

theorem unserializable_record_is_dropped_whole:
  assumes "ready s" and "subval p (PDict (to_dict msg)) = Some w"
    and "\<not> is_binary w" and "\<not> is_container w" and "json_dumps w = Inl e"
  shows "make_json_serializable w = w
    \<and> subval p (make_json_serializable (PDict (to_dict msg))) = Some w
    \<and> json_dumps (json_entry t msg d) = Inl TypeError
    \<and> log_mavlink_message t outcome msg d s = say (JsonLoggingError TypeError) s
    \<and> fs (log_mavlink_message t outcome msg d s) = fs s
    \<and> json_log_file (log_mavlink_message t outcome msg d s) = json_log_file s
    \<and> appended s (log_mavlink_message t outcome msg d s) = []"
proof -
  have a: "make_json_serializable w = w"
    using assms(3,4) by (rule mjs_leaf)
  have b: "subval p (make_json_serializable (PDict (to_dict msg))) = Some w"
    using assms(2,3,4) by (rule subval_leaf)
  have "subval (Key (KStr (str ''payload'')) # p) (json_entry t msg d) = Some w"
    using b payload_of_entry [of t msg d]
    by (simp del: child.simps make_json_serializable.simps)
  then have c: "json_dumps (json_entry t msg d) = Inl TypeError"
    using assms(5) by (rule subval_fails)
  have d: "log_mavlink_message t outcome msg d s = say (JsonLoggingError TypeError) s"
    using assms(1) c by (rule log_unserializable)
  have e: "appended s (log_mavlink_message t outcome msg d s) = []"
    using appended_log [OF assms(1), of t outcome msg d] c
    by (simp add: written_def log_line_def)
  from a b c d e show ?thesis by (simp add: say_def)
qed


theorem unserializable_record_is_dropped_whole_witness:
  "ready started
   \<and> subval [Key (KStr (str ''tags'')), Index 1] (PDict (to_dict tagged)) = Some (PObject ''set'')
   \<and> \<not> is_binary (PObject ''set'') \<and> \<not> is_container (PObject ''set'')
   \<and> json_dumps (PObject ''set'') = Inl TypeError
   \<and> json_dumps (json_entry (str ''T'') tagged (str ''RX'')) = Inl TypeError
   \<and> log_mavlink_message (str ''T'') IoOk tagged (str ''RX'') started
       = say (JsonLoggingError TypeError) started
   \<and> fs (log_mavlink_message (str ''T'') IoOk tagged (str ''RX'') started) = fs started
   \<and> appended started (log_mavlink_message (str ''T'') IoOk tagged (str ''RX'') started) = []"
proof -
  have h1: "\<not> is_binary (PObject ''set'')" by (simp add: is_binary_def)
  have h2: "\<not> is_container (PObject ''set'')" by (simp add: is_container_def)
  have h3: "json_dumps (PObject ''set'') = Inl TypeError" by simp
  note main = unserializable_record_is_dropped_whole
    [OF started_ready tagged_sub h1 h2 h3, of "str ''T''" "str ''RX''" IoOk]
  from main have c: "json_dumps (json_entry (str ''T'') tagged (str ''RX'')) = Inl TypeError"
    and d: "log_mavlink_message (str ''T'') IoOk tagged (str ''RX'') started
       = say (JsonLoggingError TypeError) started"
    and e: "fs (log_mavlink_message (str ''T'') IoOk tagged (str ''RX'') started) = fs started"
    and f: "appended started (log_mavlink_message (str ''T'') IoOk tagged (str ''RX'') started) = []"
    by blast+
  from started_ready tagged_sub h1 h2 h3 c d e f show ?thesis by (intro conjI)
qed

section \<open>The capture loop and the controller\<close>








text \<open>
  The other two results of \<^verbatim>\<open>recv_match\<close>: a call that returns \<^verbatim>\<open>None\<close> is skipped; a
  call that raises (the socket is gone) is printed, and the handler's \<^verbatim>\<open>break\<close> ends
  the loop and with it the thread.
\<close>

lemma timeout_is_skipped:
  assumes "json_logging_enabled s" and "interrupt it = None" and "received it = NoMessage"
  shows "capture_loop (it # its) s = capture_loop its s"
  using assms by simp

lemma receive_error_ends_capture_loop:
  assumes "json_logging_enabled s" and "interrupt it = None" and "received it = RecvRaises e"
  shows "capture_loop (it # its) s = thread_returns (say (JsonLoggerError e) s)"
  using assms by simp

text \<open>
  Claim C8, as the code has it. \<^verbatim>\<open>start_json_logger\<close> opens the log file first and
  starts the thread; the thread connects on its own. When the connection fails,
  \<^verbatim>\<open>start_json_logger\<close> has returned \<^verbatim>\<open>True\<close>, the empty log file is on disk and stays
  open, and the thread prints the failure and ends without taking a turn.
\<close>

theorem connect_failure_leaves_empty_log:
  assumes "open_error env = None"
  shows "fst (start_json_logger env s)
    \<and> fs (snd (start_json_logger env s)) (json_log_filename (log_dir s) (stamp env)) = Some []
    \<and> json_logger (snd (start_json_logger env s)) = Some Alive
    \<and> json_logger_thread (Some e) its (snd (start_json_logger env s))
        = thread_returns (say (ConnectionFailed e) (snd (start_json_logger env s)))
    \<and> fs (json_logger_thread (Some e) its (snd (start_json_logger env s)))
          (json_log_filename (log_dir s) (stamp env)) = Some []
    \<and> json_log_file (json_logger_thread (Some e) its (snd (start_json_logger env s)))
        = Some \<lparr>path = json_log_filename (log_dir s) (stamp env), pending = [], closed = False\<rparr>
    \<and> console (json_logger_thread (Some e) its (snd (start_json_logger env s)))
        = console s @ [JsonLoggingTo (json_log_filename (log_dir s) (stamp env)),
                       ConnectionFailed e]
    \<and> json_logger (json_logger_thread (Some e) its (snd (start_json_logger env s))) = Some Dead"
  using assms
  by (simp add: start_json_logger_def setup_json_logging_def json_logger_thread_def
      thread_returns_def say_def Let_def)

theorem connect_failure_leaves_empty_log_witness:
  "open_error sample_setup = None
   \<and> fst (start_json_logger sample_setup (init ''logs'' Map.empty))
   \<and> fs (json_logger_thread (Some OSError) [turn (Message (heartbeat 1)) IoOk] started)
        ''logs/mavlink_messages_20260101_000000.jsonl'' = Some []
   \<and> console (json_logger_thread (Some OSError) [turn (Message (heartbeat 1)) IoOk] started)
       = [JsonLoggingTo ''logs/mavlink_messages_20260101_000000.jsonl'', ConnectionFailed OSError]
   \<and> json_logger (json_logger_thread (Some OSError) [turn (Message (heartbeat 1)) IoOk] started)
       = Some Dead"
proof -
  have h: "open_error sample_setup = None" by (simp add: sample_setup_def)
  have n: "json_log_filename (log_dir (init ''logs'' Map.empty)) (stamp sample_setup)
             = ''logs/mavlink_messages_20260101_000000.jsonl''"
    by (simp add: json_log_filename_def init_def sample_setup_def)
  have c0: "console (init ''logs'' Map.empty) = []" by (simp add: init_def)
  note main = connect_failure_leaves_empty_log [OF h, of "init ''logs'' Map.empty" OSError
      "[turn (Message (heartbeat 1)) IoOk]", folded started_def, unfolded n c0 append_Nil]
  from h main show ?thesis by blast
qed

text \<open>
  Claim C8 as stated fails: with a connection that cannot be made, the start succeeds
  and the log file exists.
\<close>

theorem connect_failure_counterexample:
  "fst (start_json_logger sample_setup (init ''logs'' Map.empty))
   \<and> fs (json_logger_thread (Some OSError) [] started)
        ''logs/mavlink_messages_20260101_000000.jsonl'' = Some []"
  by (simp add: started_eq json_logger_thread_def thread_returns_def say_def
      start_json_logger_def setup_json_logging_def sample_setup_def Let_def)


lemma stopped_eq:
  "stopped = \<lparr>log_dir = ''logs'', mavproxy_process = Some ProcExited, json_logger = Some Alive,
      json_log_file = Some \<lparr>path = ''logs/mavlink_messages_20260101_000000.jsonl'',
                              pending = [], closed = True\<rparr>,
      json_logging_enabled = False,
      fs = [''logs/mavlink_messages_20260101_000000.jsonl'' \<mapsto> []],
      console = [JsonLoggingTo ''logs/mavlink_messages_20260101_000000.jsonl'',
                 JsonLoggingStopped, MavproxyStopped]\<rparr>"
  by (simp add: stopped_def running_def started_eq calm_def stop_def stop_process_def
      file_close_def fs_append_def say_def Let_def)

text \<open>
  Claim C9, as the code has it. On a stopped controller (logging disabled, MAVProxy not
  running) a call of \<^verbatim>\<open>stop\<close> raises nothing and changes no attribute, the log file
  and the disk are untouched: \<^verbatim>\<open>close\<close> is not called again, even where it would raise.
  But \<^verbatim>\<open>mavproxy_process\<close> is never reset, so when a MAVProxy had been started the
  call goes through \<^verbatim>\<open>terminate\<close> and \<^verbatim>\<open>wait\<close> once more and prints
  \<^verbatim>\<open>MAVProxy stopped\<close> again.
\<close>

theorem second_stop_only_reports:
  assumes "\<not> json_logging_enabled s" and "mavproxy_process s \<noteq> Some ProcRunning"
  shows "stop env s =
    (None, s\<lparr>console := console s @ (if mavproxy_process s = None then [] else [MavproxyStopped])\<rparr>)"
proof (cases "mavproxy_process s")
  case None
  with assms show ?thesis by (simp add: stop_def stop_process_def)
next
  case (Some p)
  with assms(2) have "p = ProcExited" by (cases p) simp_all
  with Some assms(1) show ?thesis by (simp add: stop_def stop_process_def say_def)
qed

theorem second_stop_only_reports_witness:
  "\<not> json_logging_enabled stopped \<and> mavproxy_process stopped \<noteq> Some ProcRunning
   \<and> stop \<lparr>close_failure = Some 0, terminated = TerminateRaises OSError\<rparr> stopped
       = (None, stopped\<lparr>console := console stopped @ [MavproxyStopped]\<rparr>)"
proof -
  have h1: "\<not> json_logging_enabled stopped" by (simp add: stopped_eq)
  have h2: "mavproxy_process stopped \<noteq> Some ProcRunning" by (simp add: stopped_eq)
  have h3: "mavproxy_process stopped \<noteq> None" by (simp add: stopped_eq)
  from second_stop_only_reports [OF h1 h2, of "\<lparr>close_failure = Some 0, terminated = TerminateRaises OSError\<rparr>"] h3
  have "stop \<lparr>close_failure = Some 0, terminated = TerminateRaises OSError\<rparr> stopped
       = (None, stopped\<lparr>console := console stopped @ [MavproxyStopped]\<rparr>)"
    by (simp only: if_False)
  with h1 h2 show ?thesis by (intro conjI)
qed

text \<open>
  Claim C9 as stated fails: the second \<^verbatim>\<open>stop\<close> of a logger with a MAVProxy process
  prints once more, so it is not a no-op.
\<close>

theorem stop_twice_counterexample:
  "console (snd (stop calm (snd (stop calm running))))
     = console (snd (stop calm running)) @ [MavproxyStopped]
   \<and> snd (stop calm (snd (stop calm running))) \<noteq> snd (stop calm running)"
proof -
  have a: "console (snd (stop calm stopped)) = console stopped @ [MavproxyStopped]"
    by (simp add: stopped_eq calm_def stop_def stop_process_def say_def)
  then have "console (snd (stop calm stopped)) \<noteq> console stopped" by simp
  then have b: "snd (stop calm stopped) \<noteq> stopped" by auto
  from a b show ?thesis unfolding stopped_def by (intro conjI)
qed


end
